theory Spec2Isabelle
  imports Main "HOL-Library.Multiset"
begin

section \<open>Go library functions used by \<^verbatim>\<open>cmd/root.go\<close>\<close>

text \<open>
  Go strings are byte sequences; a \<^typ>\<open>string\<close> is a list of bytes. The functions of
  this section are those of Go's standard packages \<^verbatim>\<open>strings\<close>, \<^verbatim>\<open>path/filepath\<close>
  (on Unix: the separator is the slash and there are no volume names) and \<^verbatim>\<open>slices\<close>.
\<close>

definition HasPrefix :: "string \<Rightarrow> string \<Rightarrow> bool" where
  "HasPrefix s pfx = (length pfx \<le> length s \<and> take (length pfx) s = pfx)"

text \<open>\<^verbatim>\<open>strings.CutPrefix\<close>: the string without the prefix and whether it was found.\<close>

definition CutPrefix :: "string \<Rightarrow> string \<Rightarrow> string \<times> bool" where
  "CutPrefix s pfx = (if HasPrefix s pfx then (drop (length pfx) s, True) else (s, False))"

text \<open>\<^verbatim>\<open>strings.Compare\<close>: bytewise lexicographic comparison, \<open>-1\<close>, \<open>0\<close> or \<open>1\<close>.\<close>

fun Compare :: "string \<Rightarrow> string \<Rightarrow> int" where
  "Compare [] [] = 0"
| "Compare [] (y # ys) = - 1"
| "Compare (x # xs) [] = 1"
| "Compare (x # xs) (y # ys) =
     (if (of_char x :: nat) < of_char y then - 1
      else if (of_char y :: nat) < of_char x then 1
      else Compare xs ys)"

definition IsPathSeparator :: "char \<Rightarrow> bool" where
  "IsPathSeparator c = (c = CHR ''/'')"

text \<open>
  \<^verbatim>\<open>filepath.Base\<close>: the last element of the path. Trailing separators are removed first;
  the empty path gives a dot, a path of separators only gives one separator.
\<close>

definition Base :: "string \<Rightarrow> string" where
  "Base path =
     (if path = [] then ''.''
      else
        let stripped = rev (dropWhile IsPathSeparator (rev path));
            elem = rev (takeWhile (\<lambda>c. \<not> IsPathSeparator c) (rev stripped))
        in if elem = [] then ''/'' else elem)"

text \<open>The elements of a path: the pieces between its separators, empty ones included.\<close>

fun splitSep :: "string \<Rightarrow> string list" where
  "splitSep [] = [[]]"
| "splitSep (c # cs) =
     (if IsPathSeparator c then [] # splitSep cs
      else (case splitSep cs of [] \<Rightarrow> [[c]] | e # es \<Rightarrow> (c # e) # es))"

fun joinSep :: "string list \<Rightarrow> string" where
  "joinSep [] = []"
| "joinSep [e] = e"
| "joinSep (e # es) = e @ ''/'' @ joinSep es"

text \<open>
  The loop of \<^verbatim>\<open>filepath.Clean\<close>, one path element at a time; \<open>out\<close> holds the elements
  written so far, last one first. An empty element and a dot are dropped; a dot-dot removes
  the element before it, is dropped at the root, and is kept where a relative path has
  nothing left to remove.
\<close>

fun cleanElems :: "bool \<Rightarrow> string list \<Rightarrow> string list \<Rightarrow> string list" where
  "cleanElems rooted out [] = rev out"
| "cleanElems rooted out (e # es) =
     (if e = [] \<or> e = ''.'' then cleanElems rooted out es
      else if e = ''..'' then
        (case out of
           [] \<Rightarrow> if rooted then cleanElems rooted out es else cleanElems rooted [e] es
         | l # ls \<Rightarrow>
             if l = ''..'' then cleanElems rooted (e # out) es else cleanElems rooted ls es)
      else cleanElems rooted (e # out) es)"

definition Clean :: "string \<Rightarrow> string" where
  "Clean path =
     (if path = [] then ''.''
      else
        let rooted = IsPathSeparator (hd path);
            body = joinSep (cleanElems rooted [] (splitSep path))
        in if rooted then ''/'' @ body else if body = [] then ''.'' else body)"

text \<open>
  \<^verbatim>\<open>filepath.Dir\<close>: everything up to and including the last separator, cleaned.
\<close>

definition Dir :: "string \<Rightarrow> string" where
  "Dir path = Clean (rev (dropWhile (\<lambda>c. \<not> IsPathSeparator c) (rev path)))"

text \<open>
  \<^verbatim>\<open>slices.SortFunc\<close> puts a slice in ascending order of the comparison function. The
  library sorts in place with an unstable algorithm; the model inserts one element after the
  other. Where no two different elements compare equal the ascending order is unique
  (lemma \<open>SortFunc_unique\<close> below), so the algorithm does not show in the result.
\<close>

fun insertFunc :: "('a \<Rightarrow> 'a \<Rightarrow> int) \<Rightarrow> 'a \<Rightarrow> 'a list \<Rightarrow> 'a list" where
  "insertFunc cmp x [] = [x]"
| "insertFunc cmp x (y # ys) =
     (if cmp x y \<le> 0 then x # y # ys else y # insertFunc cmp x ys)"

definition SortFunc :: "('a \<Rightarrow> 'a \<Rightarrow> int) \<Rightarrow> 'a list \<Rightarrow> 'a list" where
  "SortFunc cmp xs = foldr (insertFunc cmp) xs []"

section \<open>Data model\<close>

text \<open>
  Modelled from the spec: the type declarations of package \<^verbatim>\<open>internal/models\<close>, which
  is not among the files. \<^verbatim>\<open>models.PathInfo\<close>, \<^verbatim>\<open>models.Session\<close> and
  \<^verbatim>\<open>models.Config\<close> have the fields that \<^verbatim>\<open>cmd/root.go\<close> reads and writes, and so has
  \<^verbatim>\<open>models.ScanDir\<close> but for its depth, which only \<^verbatim>\<open>GetDepth\<close> reads: the spec gives a
  scan root a ``path, optional display prefix (alias), optional depth override''.
\<close>

record ScanDir =
  Path :: string
  Depth :: "int option"
  Alias :: string

record PathInfo =
  Path :: string
  Prefix :: string

record 'l Session =
  Name :: string
  Path :: string
  Layout :: 'l

text \<open>The fields of \<^verbatim>\<open>models.Config\<close> that the root command uses (the global \<^verbatim>\<open>cfg\<close>).\<close>

record 'l Config =
  ScanDirs :: "ScanDir list"
  EntryDirs :: "string list"
  IgnoreDirs :: "string list"
  DefaultDepth :: int
  TmuxSessionPrefix :: string
  SessionLayout :: 'l

text \<open>
  What the engine reads from outside the process. \<^verbatim>\<open>utility.ResolvePath\<close> and
  \<^verbatim>\<open>utility.GetSubDirs\<close> return a value or an error (\<open>None\<close>; the error's text is only
  printed). \<^verbatim>\<open>tmux.GetTmuxSessionSet\<close> returns a Go map from session names to booleans:
  it is given by its entries, in the order a \<^verbatim>\<open>range\<close> loop happens to visit them, and read
  with \<^const>\<open>map_of\<close>. \<^verbatim>\<open>tmux.GetCurrentTmuxSession\<close> returns a name, empty outside tmux.
\<close>

record Env =
  ResolvePath :: "string \<Rightarrow> string option"
  GetSubDirs :: "int \<Rightarrow> string \<Rightarrow> string list option"
  GetTmuxSessionSet :: "(string \<times> bool) list"
  GetCurrentTmuxSession :: string

datatype error =
    UnknownCommand string string
  | NoMatchingEntry string
  | SwitchFailed string

text \<open>The two collections that \<^verbatim>\<open>addPath\<close> appends to.\<close>

record Collected =
  allPaths :: "PathInfo list"
  pathsByBaseName :: "string \<rightharpoonup> PathInfo list"

text \<open>Reading a Go map of slices: a missing key gives the empty slice.\<close>

definition slicesAt :: "(string \<rightharpoonup> PathInfo list) \<Rightarrow> string \<Rightarrow> PathInfo list" where
  "slicesAt m name = (case m name of None \<Rightarrow> [] | Some infos \<Rightarrow> infos)"

text \<open>Reading a Go map of booleans: a missing key gives \<open>false\<close>.\<close>

definition boolAt :: "(string \<times> bool) list \<Rightarrow> string \<Rightarrow> bool" where
  "boolAt m name = (case map_of m name of None \<Rightarrow> False | Some b \<Rightarrow> b)"

section \<open>The entry-resolution engine\<close>

text \<open>
  Modelled from the spec: \<^verbatim>\<open>models.ScanDir.GetDepth\<close>, whose source (package
  \<^verbatim>\<open>internal/models\<close>) is not among the files. The spec gives the precedence
  ``explicit per-invocation override > per-source configured depth > global default
  depth''. The override is the \<^verbatim>\<open>--depth\<close> flag, an integer whose default \<open>0\<close>
  (\<^verbatim>\<open>init\<close>) stands for no override; a positive value is taken as one. The depth of a
  source is optional, and a depth it sets is taken as it is, zero included.
\<close>

definition GetDepth :: "ScanDir \<Rightarrow> int \<Rightarrow> int \<Rightarrow> int" where
  "GetDepth scanDir flagDepth defaultDepth =
     (if 0 < flagDepth then flagDepth
      else (case Depth scanDir of Some d \<Rightarrow> d | None \<Rightarrow> defaultDepth))"

text \<open>The loop that fills \<^verbatim>\<open>ignoreSet\<close>: paths that fail to resolve are left out.\<close>

fun buildIgnoreSet :: "Env \<Rightarrow> string list \<Rightarrow> string set \<Rightarrow> string set" where
  "buildIgnoreSet env [] ignoreSet = ignoreSet"
| "buildIgnoreSet env (dir # dirs) ignoreSet =
     (case ResolvePath env dir of
        Some resolved \<Rightarrow> buildIgnoreSet env dirs (insert resolved ignoreSet)
      | None \<Rightarrow> buildIgnoreSet env dirs ignoreSet)"

text \<open>
  The closure \<^verbatim>\<open>addPath\<close>. It captures the ignore set and the current session and updates
  \<^verbatim>\<open>allPaths\<close> and \<^verbatim>\<open>pathsByBaseName\<close>, here passed in and returned. Every return of
  the source is \<^verbatim>\<open>nil\<close>; the verbose warning is output only and left out.
\<close>

definition addPath ::
  "Env \<Rightarrow> string set \<Rightarrow> Collected \<Rightarrow> string \<Rightarrow> string \<Rightarrow> error + Collected" where
  "addPath env ignoreSet st path prefix =
     (case ResolvePath env path of
        None \<Rightarrow> Inr st
      | Some resolved \<Rightarrow>
          if resolved \<in> ignoreSet then Inr st
          else
            let name = Base resolved in
            if name = GetCurrentTmuxSession env then Inr st
            else
              let info = \<lparr>PathInfo.Path = resolved, Prefix = prefix\<rparr> in
              Inr \<lparr>allPaths = allPaths st @ [info],
                   pathsByBaseName =
                     (pathsByBaseName st)(name \<mapsto> slicesAt (pathsByBaseName st) name @ [info])\<rparr>)"

text \<open>The loop over \<^verbatim>\<open>subDirs\<close> in \<^verbatim>\<open>processScanDir\<close>: it stops at the first error.\<close>

fun forSubDirs ::
  "(Collected \<Rightarrow> string \<Rightarrow> string \<Rightarrow> error + Collected) \<Rightarrow> string \<Rightarrow> string list \<Rightarrow>
   Collected \<Rightarrow> error + Collected" where
  "forSubDirs addEntry prefix [] st = Inr st"
| "forSubDirs addEntry prefix (subDir # subDirs) st =
     (case addEntry st subDir prefix of
        Inl err \<Rightarrow> Inl err
      | Inr st' \<Rightarrow> forSubDirs addEntry prefix subDirs st')"

definition processScanDir ::
  "Env \<Rightarrow> 'l Config \<Rightarrow> ScanDir \<Rightarrow> int \<Rightarrow> string \<Rightarrow>
   (Collected \<Rightarrow> string \<Rightarrow> string \<Rightarrow> error + Collected) \<Rightarrow> Collected \<Rightarrow> error + Collected" where
  "processScanDir env cfg scanDir flagDepth prefix addEntry st =
     (let defaultDepth = DefaultDepth cfg;
          effectiveDepth = GetDepth scanDir flagDepth defaultDepth
      in case ResolvePath env (ScanDir.Path scanDir) of
           None \<Rightarrow> Inr st
         | Some resolved \<Rightarrow>
             (case GetSubDirs env effectiveDepth resolved of
                None \<Rightarrow> Inr st
              | Some subDirs \<Rightarrow> forSubDirs addEntry prefix subDirs st))"

definition createDisplayName :: "PathInfo \<Rightarrow> (string \<rightharpoonup> PathInfo list) \<Rightarrow> string" where
  "createDisplayName info byBaseName =
     (let name = Base (PathInfo.Path info);
          pathsWithSameName = slicesAt byBaseName name;
          displayName =
            (if 1 < length pathsWithSameName
             then name @ '' ('' @ Base (Dir (PathInfo.Path info)) @ '')''
             else name)
      in if Prefix info \<noteq> [] then Prefix info @ ''/'' @ displayName else displayName)"

definition shouldSkipEntry :: "string \<Rightarrow> string \<Rightarrow> (string \<times> bool) list \<Rightarrow> bool" where
  "shouldSkipEntry displayName currentSession existingSessions =
     (displayName = currentSession \<or> boolAt existingSessions displayName)"

text \<open>The three loops of \<^verbatim>\<open>buildDirectoryEntries\<close> after the ignore set is built.\<close>

fun forScanDirs ::
  "Env \<Rightarrow> 'l Config \<Rightarrow> int \<Rightarrow> (Collected \<Rightarrow> string \<Rightarrow> string \<Rightarrow> error + Collected) \<Rightarrow>
   ScanDir list \<Rightarrow> Collected \<Rightarrow> error + Collected" where
  "forScanDirs env cfg flagDepth addEntry [] st = Inr st"
| "forScanDirs env cfg flagDepth addEntry (scanDir # scanDirs) st =
     (case processScanDir env cfg scanDir flagDepth (Alias scanDir) addEntry st of
        Inl err \<Rightarrow> Inl err
      | Inr st' \<Rightarrow> forScanDirs env cfg flagDepth addEntry scanDirs st')"

fun forEntryDirs ::
  "(Collected \<Rightarrow> string \<Rightarrow> string \<Rightarrow> error + Collected) \<Rightarrow> string list \<Rightarrow>
   Collected \<Rightarrow> error + Collected" where
  "forEntryDirs addEntry [] st = Inr st"
| "forEntryDirs addEntry (entryDir # entryDirs) st =
     (case addEntry st entryDir [] of
        Inl err \<Rightarrow> Inl err
      | Inr st' \<Rightarrow> forEntryDirs addEntry entryDirs st')"

fun forAllPaths ::
  "string \<Rightarrow> (string \<times> bool) list \<Rightarrow> (string \<rightharpoonup> PathInfo list) \<Rightarrow> PathInfo list \<Rightarrow>
   (string \<rightharpoonup> string) \<Rightarrow> (string \<rightharpoonup> string)" where
  "forAllPaths currentSession existingSessions byBaseName [] entries = entries"
| "forAllPaths currentSession existingSessions byBaseName (info # infos) entries =
     (let displayName = createDisplayName info byBaseName
      in if shouldSkipEntry displayName currentSession existingSessions
         then forAllPaths currentSession existingSessions byBaseName infos entries
         else forAllPaths currentSession existingSessions byBaseName infos
                (entries(displayName \<mapsto> PathInfo.Path info)))"

fun forSessions ::
  "string \<Rightarrow> string \<Rightarrow> string list \<Rightarrow> (string \<rightharpoonup> string) \<Rightarrow> (string \<rightharpoonup> string)" where
  "forSessions currentSession sessionPrefix [] entries = entries"
| "forSessions currentSession sessionPrefix (sessionName # sessionNames) entries =
     (if sessionName = currentSession
      then forSessions currentSession sessionPrefix sessionNames entries
      else forSessions currentSession sessionPrefix sessionNames
             (entries(sessionPrefix @ sessionName \<mapsto> sessionName)))"

text \<open>
  The candidates collected by the first two loops, and the table after the third: the
  entries that come from directories, before the live sessions are added.
\<close>

definition collectPaths :: "Env \<Rightarrow> 'l Config \<Rightarrow> int \<Rightarrow> error + Collected" where
  "collectPaths env cfg flagDepth =
     (let ignoreSet = buildIgnoreSet env (IgnoreDirs cfg) {};
          addEntry = addPath env ignoreSet
      in case forScanDirs env cfg flagDepth addEntry (ScanDirs cfg)
                \<lparr>allPaths = [], pathsByBaseName = Map.empty\<rparr> of
           Inl err \<Rightarrow> Inl err
         | Inr st \<Rightarrow> forEntryDirs addEntry (EntryDirs cfg) st)"

definition directoryEntries :: "Env \<Rightarrow> Collected \<Rightarrow> (string \<rightharpoonup> string)" where
  "directoryEntries env st =
     forAllPaths (GetCurrentTmuxSession env) (GetTmuxSessionSet env) (pathsByBaseName st)
       (allPaths st) Map.empty"

definition buildDirectoryEntries ::
  "Env \<Rightarrow> 'l Config \<Rightarrow> int \<Rightarrow> error + (string \<rightharpoonup> string)" where
  "buildDirectoryEntries env cfg flagDepth =
     (case collectPaths env cfg flagDepth of
        Inl err \<Rightarrow> Inl err
      | Inr st \<Rightarrow>
          Inr (forSessions (GetCurrentTmuxSession env) (TmuxSessionPrefix cfg)
                 (map fst (GetTmuxSessionSet env)) (directoryEntries env st)))"

section \<open>The root command\<close>

text \<open>
  The comparison function that \<^verbatim>\<open>RunE\<close> hands to \<^verbatim>\<open>slices.SortFunc\<close>; it captures
  \<^verbatim>\<open>cfg.TmuxSessionPrefix\<close>.
\<close>

definition sessionsFirst :: "string \<Rightarrow> string \<Rightarrow> string \<Rightarrow> int" where
  "sessionsFirst sessionPrefix a b =
     (let isTmuxA = HasPrefix a sessionPrefix;
          isTmuxB = HasPrefix b sessionPrefix
      in if isTmuxA \<and> \<not> isTmuxB then - 1
         else if \<not> isTmuxA \<and> isTmuxB then 1
         else Compare a b)"

text \<open>
  The collaborators of \<^verbatim>\<open>RunE\<close> outside the engine. \<^verbatim>\<open>fzf.SelectWithFzf\<close> returns the
  chosen string (\<open>Inr\<close>) or an error, given by its text (\<open>Inl\<close>);
  \<^verbatim>\<open>tmux.CreateAndSwitchSession\<close> returns an error text or nothing. \<open>rangeKeys\<close> is the
  order in which \<^verbatim>\<open>for name := range entries\<close> yields the keys of the table, which Go
  leaves open.
\<close>

record 'l Collaborators =
  SelectWithFzf :: "string list \<Rightarrow> string + string"
  CreateAndSwitchSession :: "'l Config \<Rightarrow> 'l Session \<Rightarrow> string option"
  rangeKeys :: "(string \<rightharpoonup> string) \<Rightarrow> string list"

text \<open>
  How a run of the command ends: the function returns \<^verbatim>\<open>nil\<close> or an error, or
  \<^verbatim>\<open>cobra.CheckErr\<close> ends the process.
\<close>

datatype outcome = Returned "error option" | Exited

definition PreRunE :: "string list \<Rightarrow> error option" where
  "PreRunE args =
     (if length args = 1 then
        (if hd args = ''init'' then Some (UnknownCommand ''init'' ''tms config init'')
         else if hd args = ''edit'' then Some (UnknownCommand ''edit'' ''tms config edit'')
         else None)
      else None)"

text \<open>The names handed to the picker: the keys of the table, sorted.\<close>

definition pickerNames :: "'l Config \<Rightarrow> string list \<Rightarrow> string list" where
  "pickerNames cfg names = SortFunc (sessionsFirst (TmuxSessionPrefix cfg)) names"

text \<open>\<^verbatim>\<open>RunE\<close> from the lookup of the choice in the table to its end.\<close>

definition switchToChoice ::
  "'l Config \<Rightarrow> 'l Collaborators \<Rightarrow> (string \<rightharpoonup> string) \<Rightarrow> string list \<Rightarrow> string \<Rightarrow> outcome" where
  "switchToChoice cfg ext entries args choiceStr =
     (let sessionName = fst (CutPrefix choiceStr (TmuxSessionPrefix cfg));
          (selectedPath, exists) =
            (case entries choiceStr of None \<Rightarrow> ([], False) | Some v \<Rightarrow> (v, True))
      in if \<not> exists \<and> length args = 0 then Returned (Some (NoMatchingEntry choiceStr))
         else
           let session = \<lparr>Name = sessionName, Session.Path = selectedPath,
                          Layout = SessionLayout cfg\<rparr>
           in case CreateAndSwitchSession ext cfg session of
                Some err \<Rightarrow> Returned (Some (SwitchFailed err))
              | None \<Rightarrow> Returned None)"

definition RunE ::
  "Env \<Rightarrow> 'l Config \<Rightarrow> 'l Collaborators \<Rightarrow> int \<Rightarrow> string list \<Rightarrow> outcome" where
  "RunE env cfg ext flagDepth args =
     (case buildDirectoryEntries env cfg flagDepth of
        Inl err \<Rightarrow> Exited
      | Inr entries \<Rightarrow>
          let choiceStr = (if length args = 1 then hd args else [])
          in if choiceStr = [] then
               (case SelectWithFzf ext (pickerNames cfg (rangeKeys ext entries)) of
                  Inl err \<Rightarrow> if err = ''user cancelled'' then Returned None else Exited
                | Inr picked \<Rightarrow>
                    if picked = [] then Returned None
                    else switchToChoice cfg ext entries args picked)
             else switchToChoice cfg ext entries args choiceStr)"

text \<open>
  The command as cobra runs it once the number of arguments has been checked and
  \<^verbatim>\<open>PersistentPreRunE\<close> has passed: \<^verbatim>\<open>PreRunE\<close>, and \<^verbatim>\<open>RunE\<close> only when that
  returned no error.
\<close>

definition rootCmd ::
  "Env \<Rightarrow> 'l Config \<Rightarrow> 'l Collaborators \<Rightarrow> int \<Rightarrow> string list \<Rightarrow> outcome" where
  "rootCmd env cfg ext flagDepth args =
     (case PreRunE args of
        Some err \<Rightarrow> Returned (Some err)
      | None \<Rightarrow> RunE env cfg ext flagDepth args)"

section \<open>The subtree scanner of the spec\<close>

text \<open>
  Modelled from the spec: \<^verbatim>\<open>utility.GetSubDirs\<close>, whose source (package
  \<^verbatim>\<open>internal/utility\<close>) is not among the files. The spec's scanner ``enumerates
  subdirectories up to that depth as a flat list of absolute paths'', must ``skip
  non-directory entries and silently omit directories it cannot read'', fails ``only when
  the root itself cannot be resolved/read'', and for the depth ``a value of zero or unset
  means no recursion, only the root's immediate content''. A directory is given by its name,
  whether it can be read, and its content.
\<close>

datatype fsnode = File string | Directory string bool "fsnode list"

text \<open>
  Modelled from the spec: the paths that the scanner lists for one entry of a directory,
  descending \<open>levels\<close> further levels below it.
\<close>

fun subDirsBelow :: "nat \<Rightarrow> string \<Rightarrow> fsnode \<Rightarrow> string list" where
  "subDirsBelow levels parent (File name) = []"
| "subDirsBelow levels parent (Directory name readable content) =
     (if \<not> readable then []
      else
        let path = parent @ ''/'' @ name
        in path # (case levels of
                     0 \<Rightarrow> []
                   | Suc fewer \<Rightarrow> concat (map (subDirsBelow fewer path) content)))"

text \<open>
  Modelled from the spec: the scan of a root, given by its path and the tree found there.
\<close>

definition scanSubtree :: "int \<Rightarrow> string \<Rightarrow> fsnode \<Rightarrow> string list option" where
  "scanSubtree maxDepth root tree =
     (case tree of
        File name \<Rightarrow> None
      | Directory name readable content \<Rightarrow>
          if \<not> readable then None
          else Some (concat (map (subDirsBelow (nat maxDepth) root) content)))"

section \<open>Example inputs\<close>

text \<open>
  A small setting used to run the definitions: one scan root \<^verbatim>\<open>/w\<close> with the alias
  \<^verbatim>\<open>work\<close> and two subdirectories, two explicit entries of which \<^verbatim>\<open>/tmp\<close> is
  ignored, and two live sessions of which \<^verbatim>\<open>main\<close> is the current one. Every path but
  \<^verbatim>\<open>/missing\<close> resolves to itself.
\<close>

definition demoEnv :: Env where
  "demoEnv =
     \<lparr>ResolvePath = (\<lambda>path. if path = ''/missing'' then None else Some path),
      GetSubDirs = (\<lambda>depth root. if root = ''/w'' then Some [''/w/api'', ''/w/main''] else None),
      GetTmuxSessionSet = [(''notes'', True), (''main'', True)],
      GetCurrentTmuxSession = ''main''\<rparr>"

definition demoCfg :: "unit Config" where
  "demoCfg =
     \<lparr>ScanDirs = [\<lparr>ScanDir.Path = ''/w'', Depth = None, Alias = ''work''\<rparr>],
      EntryDirs = [''/etc'', ''/tmp''],
      IgnoreDirs = [''/tmp''],
      DefaultDepth = 1,
      TmuxSessionPrefix = ''TMUX/'',
      SessionLayout = ()\<rparr>"

text \<open>
  Collaborators for the example: the picker answers with a name that is no key of the
  table, and creating a session succeeds.
\<close>

definition demoExt :: "unit Collaborators" where
  "demoExt =
     \<lparr>SelectWithFzf = (\<lambda>names. Inr ''scratch''),
      CreateAndSwitchSession = (\<lambda>cfg session. None),
      rangeKeys = (\<lambda>entries. [''etc'', ''work/api'', ''TMUX/notes''])\<rparr>"

section \<open>Properties of the collection phase\<close>

text \<open>
  \<^verbatim>\<open>addPath\<close> either leaves the two collections as they are or appends one candidate to
  both.
\<close>

lemma addPath_cases:
  "addPath env ig st path prefix = Inr st \<or>
   (\<exists>resolved. ResolvePath env path = Some resolved \<and> resolved \<notin> ig \<and>
      Base resolved \<noteq> GetCurrentTmuxSession env \<and>
      addPath env ig st path prefix =
        Inr \<lparr>allPaths = allPaths st @ [\<lparr>PathInfo.Path = resolved, Prefix = prefix\<rparr>],
             pathsByBaseName = (pathsByBaseName st)(Base resolved \<mapsto>
               slicesAt (pathsByBaseName st) (Base resolved) @ [\<lparr>PathInfo.Path = resolved, Prefix = prefix\<rparr>])\<rparr>)"
  by (simp add: addPath_def Let_def split: option.split)

lemma forSubDirs_invariant:
  assumes step: "\<And>s p s'. P s \<Longrightarrow> addEntry s p prefix = Inr s' \<Longrightarrow> P s'"
  shows "P st \<Longrightarrow> forSubDirs addEntry prefix subDirs st = Inr st' \<Longrightarrow> P st'"
proof (induction subDirs arbitrary: st)
  case Nil
  then show ?case by simp
next
  case (Cons d ds)
  show ?case
  proof (cases "addEntry st d prefix")
    case (Inl e)
    with Cons.prems show ?thesis by simp
  next
    case (Inr mid)
    have "P mid" using step[OF Cons.prems(1) Inr] .
    with Cons.IH[of mid] Cons.prems(2) Inr show ?thesis by simp
  qed
qed

lemma processScanDir_invariant:
  assumes step: "\<And>s p s'. P s \<Longrightarrow> addEntry s p prefix = Inr s' \<Longrightarrow> P s'"
    and "P st" and "processScanDir env cfg scanDir flagDepth prefix addEntry st = Inr st'"
  shows "P st'"
proof (cases "ResolvePath env (ScanDir.Path scanDir)")
  case None
  with assms(2,3) show ?thesis by (simp add: processScanDir_def)
next
  case (Some resolved)
  show ?thesis
  proof (cases "GetSubDirs env (GetDepth scanDir flagDepth (DefaultDepth cfg)) resolved")
    case None
    with Some assms(2,3) show ?thesis by (simp add: processScanDir_def)
  next
    case (Some subDirs)
    with \<open>ResolvePath env (ScanDir.Path scanDir) = Some resolved\<close> assms(3)
    have "forSubDirs addEntry prefix subDirs st = Inr st'"
      by (simp add: processScanDir_def)
    show ?thesis
    proof (rule forSubDirs_invariant[where P = P and addEntry = addEntry and prefix = prefix])
      show "\<And>s p s'. P s \<Longrightarrow> addEntry s p prefix = Inr s' \<Longrightarrow> P s'" by (rule step)
      show "P st" by fact
      show "forSubDirs addEntry prefix subDirs st = Inr st'" by fact
    qed
  qed
qed

lemma forScanDirs_invariant:
  assumes step: "\<And>s p pre s'. P s \<Longrightarrow> addEntry s p pre = Inr s' \<Longrightarrow> P s'"
  shows "P st \<Longrightarrow> forScanDirs env cfg flagDepth addEntry scanDirs st = Inr st' \<Longrightarrow> P st'"
proof (induction scanDirs arbitrary: st)
  case Nil
  then show ?case by simp
next
  case (Cons sd sds)
  show ?case
  proof (cases "processScanDir env cfg sd flagDepth (Alias sd) addEntry st")
    case (Inl e)
    with Cons.prems show ?thesis by simp
  next
    case (Inr mid)
    have "P mid"
    proof (rule processScanDir_invariant[where P = P and addEntry = addEntry])
      show "\<And>s p s'. P s \<Longrightarrow> addEntry s p (Alias sd) = Inr s' \<Longrightarrow> P s'" by (rule step)
      show "P st" by fact
      show "processScanDir env cfg sd flagDepth (Alias sd) addEntry st = Inr mid" by fact
    qed
    with Cons.IH[of mid] Cons.prems(2) Inr show ?thesis by simp
  qed
qed

lemma forEntryDirs_invariant:
  assumes step: "\<And>s p s'. P s \<Longrightarrow> addEntry s p [] = Inr s' \<Longrightarrow> P s'"
  shows "P st \<Longrightarrow> forEntryDirs addEntry entryDirs st = Inr st' \<Longrightarrow> P st'"
proof (induction entryDirs arbitrary: st)
  case Nil
  then show ?case by simp
next
  case (Cons d ds)
  show ?case
  proof (cases "addEntry st d []")
    case (Inl e)
    with Cons.prems show ?thesis by simp
  next
    case (Inr mid)
    have "P mid" using step[OF Cons.prems(1) Inr] .
    with Cons.IH[of mid] Cons.prems(2) Inr show ?thesis by simp
  qed
qed

lemma collectPaths_invariant:
  assumes init: "P \<lparr>allPaths = [], pathsByBaseName = Map.empty\<rparr>"
    and step: "\<And>s p pre s'. P s \<Longrightarrow>
        addPath env (buildIgnoreSet env (IgnoreDirs cfg) {}) s p pre = Inr s' \<Longrightarrow> P s'"
    and run: "collectPaths env cfg flagDepth = Inr st"
  shows "P st"
proof -
  let ?add = "addPath env (buildIgnoreSet env (IgnoreDirs cfg) {})"
  obtain mid where mid: "forScanDirs env cfg flagDepth ?add (ScanDirs cfg)
      \<lparr>allPaths = [], pathsByBaseName = Map.empty\<rparr> = Inr mid"
    and fin: "forEntryDirs ?add (EntryDirs cfg) mid = Inr st"
    using run by (auto simp: collectPaths_def Let_def split: sum.splits)
  have "P mid"
  proof (rule forScanDirs_invariant[where P = P and addEntry = "?add"])
    show "\<And>s p pre s'. P s \<Longrightarrow> ?add s p pre = Inr s' \<Longrightarrow> P s'" by (rule step)
    show "P \<lparr>allPaths = [], pathsByBaseName = Map.empty\<rparr>" by fact
    show "forScanDirs env cfg flagDepth ?add (ScanDirs cfg)
      \<lparr>allPaths = [], pathsByBaseName = Map.empty\<rparr> = Inr mid" by fact
  qed
  show ?thesis
  proof (rule forEntryDirs_invariant[where P = P and addEntry = "?add"])
    show "\<And>s p s'. P s \<Longrightarrow> ?add s p [] = Inr s' \<Longrightarrow> P s'" by (rule step)
    show "P mid" by fact
    show "forEntryDirs ?add (EntryDirs cfg) mid = Inr st" by fact
  qed
qed

lemma demo_collect:
  "collectPaths demoEnv demoCfg 0 =
     Inr \<lparr>allPaths = [\<lparr>PathInfo.Path = ''/w/api'', Prefix = ''work''\<rparr>,
                       \<lparr>PathInfo.Path = ''/etc'', Prefix = ''''\<rparr>],
          pathsByBaseName =
            [''api'' \<mapsto> [\<lparr>PathInfo.Path = ''/w/api'', Prefix = ''work''\<rparr>],
             ''etc'' \<mapsto> [\<lparr>PathInfo.Path = ''/etc'', Prefix = ''''\<rparr>]]\<rparr>"
  by (simp add: collectPaths_def demoEnv_def demoCfg_def processScanDir_def addPath_def
      GetDepth_def Base_def IsPathSeparator_def slicesAt_def Let_def)

text \<open>No step of the collection phase returns an error.\<close>

lemma addPath_no_error: "\<exists>st'. addPath env ig st path prefix = Inr st'"
  using addPath_cases[of env ig st path prefix] by blast

lemma forSubDirs_no_error:
  assumes ok: "\<And>s p. \<exists>s'. addEntry s p prefix = Inr s'"
  shows "\<exists>st'. forSubDirs addEntry prefix subDirs st = Inr st'"
proof (induction subDirs arbitrary: st)
  case Nil
  show ?case by simp
next
  case (Cons d ds)
  obtain mid where "addEntry st d prefix = Inr mid" using ok by blast
  with Cons.IH[of mid] show ?case by simp
qed

lemma processScanDir_no_error:
  assumes ok: "\<And>s p. \<exists>s'. addEntry s p prefix = Inr s'"
  shows "\<exists>st'. processScanDir env cfg scanDir flagDepth prefix addEntry st = Inr st'"
  using forSubDirs_no_error[of addEntry prefix, OF ok]
  by (simp add: processScanDir_def split: option.split)

lemma forScanDirs_no_error:
  assumes ok: "\<And>s p pre. \<exists>s'. addEntry s p pre = Inr s'"
  shows "\<exists>st'. forScanDirs env cfg flagDepth addEntry scanDirs st = Inr st'"
proof (induction scanDirs arbitrary: st)
  case Nil
  show ?case by simp
next
  case (Cons sd sds)
  obtain mid where "processScanDir env cfg sd flagDepth (Alias sd) addEntry st = Inr mid"
    using processScanDir_no_error[of addEntry "Alias sd"] ok by blast
  with Cons.IH[of mid] show ?case by simp
qed

lemma forEntryDirs_no_error:
  assumes ok: "\<And>s p. \<exists>s'. addEntry s p [] = Inr s'"
  shows "\<exists>st'. forEntryDirs addEntry entryDirs st = Inr st'"
proof (induction entryDirs arbitrary: st)
  case Nil
  show ?case by simp
next
  case (Cons d ds)
  obtain mid where "addEntry st d [] = Inr mid" using ok by blast
  with Cons.IH[of mid] show ?case by simp
qed

lemma collectPaths_no_error: "\<exists>st. collectPaths env cfg flagDepth = Inr st"
proof -
  let ?add = "addPath env (buildIgnoreSet env (IgnoreDirs cfg) {})"
  obtain mid where mid: "forScanDirs env cfg flagDepth ?add (ScanDirs cfg)
      \<lparr>allPaths = [], pathsByBaseName = Map.empty\<rparr> = Inr mid"
    using forScanDirs_no_error[of ?add] addPath_no_error by blast
  obtain st where "forEntryDirs ?add (EntryDirs cfg) mid = Inr st"
    using forEntryDirs_no_error[of ?add] addPath_no_error by blast
  with mid show ?thesis by (simp add: collectPaths_def)
qed

lemma buildDirectoryEntries_no_error: "\<exists>entries. buildDirectoryEntries env cfg flagDepth = Inr entries"
  using collectPaths_no_error[of env cfg flagDepth] by (auto simp: buildDirectoryEntries_def)

lemma forScanDirs_append:
  "forScanDirs env cfg flagDepth addEntry (xs @ ys) st =
     (case forScanDirs env cfg flagDepth addEntry xs st of
        Inl err \<Rightarrow> Inl err
      | Inr mid \<Rightarrow> forScanDirs env cfg flagDepth addEntry ys mid)"
  by (induction xs arbitrary: st) (simp_all split: sum.split)

lemma processScanDir_unresolved:
  "ResolvePath env (ScanDir.Path scanDir) = None \<Longrightarrow>
   processScanDir env cfg scanDir flagDepth prefix addEntry st = Inr st"
  by (simp add: processScanDir_def)

lemma forScanDirs_skip_unresolved:
  assumes "ResolvePath env (ScanDir.Path bad) = None"
  shows "forScanDirs env cfg flagDepth addEntry (before @ bad # after) st =
         forScanDirs env cfg flagDepth addEntry (before @ after) st"
  using assms by (simp add: forScanDirs_append processScanDir_unresolved split: sum.split)

lemma processScanDir_ScanDirs_update:
  "processScanDir env (cfg\<lparr>ScanDirs := sds\<rparr>) = processScanDir env cfg"
  by (intro ext) (simp add: processScanDir_def)

lemma forScanDirs_ScanDirs_update:
  "forScanDirs env (cfg\<lparr>ScanDirs := sds\<rparr>) flagDepth addEntry scanDirs st =
   forScanDirs env cfg flagDepth addEntry scanDirs st"
  by (induction scanDirs arbitrary: st)
     (simp_all add: processScanDir_ScanDirs_update split: sum.split)

lemma collectPaths_skip_unresolved:
  assumes "ResolvePath env (ScanDir.Path bad) = None"
  shows "collectPaths env (cfg\<lparr>ScanDirs := before @ bad # after\<rparr>) flagDepth =
         collectPaths env (cfg\<lparr>ScanDirs := before @ after\<rparr>) flagDepth"
  using assms
  by (simp add: collectPaths_def Let_def forScanDirs_ScanDirs_update
      forScanDirs_skip_unresolved split: sum.split)

text \<open>The table of the example setting.\<close>

lemma demo_directoryEntries:
  "directoryEntries demoEnv (projr (collectPaths demoEnv demoCfg 0)) =
     [''work/api'' \<mapsto> ''/w/api'', ''etc'' \<mapsto> ''/etc'']"
  by (simp add: demo_collect directoryEntries_def createDisplayName_def shouldSkipEntry_def
      boolAt_def slicesAt_def Base_def IsPathSeparator_def Let_def)
     (simp add: demoEnv_def)

lemma demo_entries:
  "buildDirectoryEntries demoEnv demoCfg 0 =
     Inr [''work/api'' \<mapsto> ''/w/api'', ''etc'' \<mapsto> ''/etc'', ''TMUX/notes'' \<mapsto> ''notes'']"
  using demo_directoryEntries
  by (simp add: buildDirectoryEntries_def demo_collect)
     (simp add: demoEnv_def demoCfg_def)


section \<open>Properties of the table\<close>

text \<open>
  The loop over the live sessions sets the key \<open>sessionPrefix + name\<close> for every session but
  the current one and leaves every other key as the directory phase left it. The directory
  phase never sets a key that \<^verbatim>\<open>shouldSkipEntry\<close> rejects, and every value it stores is
  the path of a collected candidate.
\<close>

lemma forSessions_apply:
  "forSessions cur pfx names entries k =
     (if \<exists>s \<in> set names. s \<noteq> cur \<and> pfx @ s = k then Some (drop (length pfx) k)
      else entries k)"
  by (induction names arbitrary: entries) auto


lemma forAllPaths_origin:
  "forAllPaths cur ss idx infos entries k = Some v \<Longrightarrow>
   entries k = Some v \<or>
   (\<exists>info \<in> set infos. k = createDisplayName info idx \<and> v = PathInfo.Path info \<and>
      \<not> shouldSkipEntry k cur ss)"
proof (induction infos arbitrary: entries)
  case Nil
  then show ?case by simp
next
  case (Cons info infos)
  show ?case
  proof (cases "shouldSkipEntry (createDisplayName info idx) cur ss")
    case True
    with Cons.prems have "forAllPaths cur ss idx infos entries k = Some v"
      by (simp add: Let_def)
    from Cons.IH[OF this] show ?thesis by auto
  next
    case False
    with Cons.prems have "forAllPaths cur ss idx infos
        (entries(createDisplayName info idx \<mapsto> PathInfo.Path info)) k = Some v"
      by (simp add: Let_def)
    from Cons.IH[OF this] False show ?thesis by (auto split: if_splits)
  qed
qed

lemma forAllPaths_same_sessions:
  "map_of ss = map_of ss' \<Longrightarrow>
   forAllPaths cur ss idx infos entries = forAllPaths cur ss' idx infos entries"
  by (induction infos arbitrary: entries) (simp_all add: Let_def shouldSkipEntry_def boolAt_def)

lemma buildIgnoreSet_sessions_update:
  "buildIgnoreSet (env\<lparr>GetTmuxSessionSet := ss\<rparr>) dirs acc = buildIgnoreSet env dirs acc"
  by (induction dirs arbitrary: acc) (simp_all split: option.split)

lemma addPath_sessions_update:
  "addPath (env\<lparr>GetTmuxSessionSet := ss\<rparr>) = addPath env"
  by (intro ext) (simp add: addPath_def Let_def split: option.split)

lemma processScanDir_sessions_update:
  "processScanDir (env\<lparr>GetTmuxSessionSet := ss\<rparr>) = processScanDir env"
  by (intro ext) (simp add: processScanDir_def split: option.split)

lemma forScanDirs_sessions_update:
  "forScanDirs (env\<lparr>GetTmuxSessionSet := ss\<rparr>) cfg flagDepth addEntry scanDirs st =
   forScanDirs env cfg flagDepth addEntry scanDirs st"
  by (induction scanDirs arbitrary: st)
     (simp_all add: processScanDir_sessions_update split: sum.split)

lemma collectPaths_sessions_update:
  "collectPaths (env\<lparr>GetTmuxSessionSet := ss\<rparr>) cfg flagDepth = collectPaths env cfg flagDepth"
  by (simp add: collectPaths_def buildIgnoreSet_sessions_update addPath_sessions_update
      forScanDirs_sessions_update)

lemma session_names_of_map: "fst ` set ss = dom (map_of ss)"
  by (simp add: dom_map_of_conv_image_fst)

lemma buildIgnoreSet_eq:
  "buildIgnoreSet env dirs acc = acc \<union> {r. \<exists>d \<in> set dirs. ResolvePath env d = Some r}"
  by (induction dirs arbitrary: acc) (auto split: option.splits)

lemma collected_not_ignored:
  assumes "collectPaths env cfg flagDepth = Inr st"
  shows "\<forall>info \<in> set (allPaths st). PathInfo.Path info \<notin> buildIgnoreSet env (IgnoreDirs cfg) {}"
proof (rule collectPaths_invariant[where
      P = "\<lambda>s. \<forall>info \<in> set (allPaths s). PathInfo.Path info \<notin> buildIgnoreSet env (IgnoreDirs cfg) {}",
      OF _ _ assms])
  show "\<forall>info \<in> set (allPaths \<lparr>allPaths = [], pathsByBaseName = Map.empty\<rparr>).
          PathInfo.Path info \<notin> buildIgnoreSet env (IgnoreDirs cfg) {}"
    by simp
next
  fix s p pre s'
  assume inv: "\<forall>info \<in> set (allPaths s). PathInfo.Path info \<notin> buildIgnoreSet env (IgnoreDirs cfg) {}"
    and add: "addPath env (buildIgnoreSet env (IgnoreDirs cfg) {}) s p pre = Inr s'"
  from addPath_cases[of env "buildIgnoreSet env (IgnoreDirs cfg) {}" s p pre]
  show "\<forall>info \<in> set (allPaths s'). PathInfo.Path info \<notin> buildIgnoreSet env (IgnoreDirs cfg) {}"
  proof (elim disjE exE conjE)
    assume "addPath env (buildIgnoreSet env (IgnoreDirs cfg) {}) s p pre = Inr s"
    with add inv show ?thesis by simp
  next
    fix resolved
    assume fresh: "resolved \<notin> buildIgnoreSet env (IgnoreDirs cfg) {}"
      and eq: "addPath env (buildIgnoreSet env (IgnoreDirs cfg) {}) s p pre =
        Inr \<lparr>allPaths = allPaths s @ [\<lparr>PathInfo.Path = resolved, Prefix = pre\<rparr>],
             pathsByBaseName = (pathsByBaseName s)(Base resolved \<mapsto>
               slicesAt (pathsByBaseName s) (Base resolved) @
                 [\<lparr>PathInfo.Path = resolved, Prefix = pre\<rparr>])\<rparr>"
    from add eq have "allPaths s' = allPaths s @ [\<lparr>PathInfo.Path = resolved, Prefix = pre\<rparr>]"
      by auto
    with inv fresh show ?thesis by simp
  qed
qed

lemma directoryEntries_values:
  "directoryEntries env st k = Some v \<Longrightarrow>
   \<exists>info \<in> set (allPaths st). k = createDisplayName info (pathsByBaseName st) \<and>
     v = PathInfo.Path info \<and>
     \<not> shouldSkipEntry k (GetCurrentTmuxSession env) (GetTmuxSessionSet env)"
  using forAllPaths_origin[of "GetCurrentTmuxSession env" "GetTmuxSessionSet env"
      "pathsByBaseName st" "allPaths st" Map.empty k v]
  by (simp add: directoryEntries_def)


lemma buildDirectoryEntries_apply:
  assumes "buildDirectoryEntries env cfg flagDepth = Inr entries"
  shows "\<exists>st. collectPaths env cfg flagDepth = Inr st \<and>
           (\<forall>k. entries k =
              (if \<exists>s \<in> fst ` set (GetTmuxSessionSet env).
                    s \<noteq> GetCurrentTmuxSession env \<and> TmuxSessionPrefix cfg @ s = k
               then Some (drop (length (TmuxSessionPrefix cfg)) k)
               else directoryEntries env st k))"
proof -
  obtain st where st: "collectPaths env cfg flagDepth = Inr st"
    using collectPaths_no_error by blast
  with assms have "entries = forSessions (GetCurrentTmuxSession env) (TmuxSessionPrefix cfg)
      (map fst (GetTmuxSessionSet env)) (directoryEntries env st)"
    by (simp add: buildDirectoryEntries_def)
  then have "\<forall>k. entries k =
      (if \<exists>s \<in> fst ` set (GetTmuxSessionSet env).
            s \<noteq> GetCurrentTmuxSession env \<and> TmuxSessionPrefix cfg @ s = k
       then Some (drop (length (TmuxSessionPrefix cfg)) k)
       else directoryEntries env st k)"
    by (simp add: forSessions_apply)
  with st show ?thesis by blast
qed


section \<open>Properties of the presentation order\<close>

text \<open>
  \<^verbatim>\<open>strings.Compare\<close> is a total order on strings, and so is the comparison function of
  \<^verbatim>\<open>RunE\<close>: sessions first, then byte order. \<^const>\<open>SortFunc\<close> returns the one ascending
  arrangement of its input.
\<close>

lemma Compare_same: "Compare a a = 0"
  by (induction a) simp_all
lemma Compare_flip: "Compare b a = - Compare a b"
  by (induction a b rule: Compare.induct) auto
lemma Compare_eq_0: "Compare a b = 0 \<Longrightarrow> a = b"
  by (induction a b rule: Compare.induct) (auto split: if_splits)
lemma Compare_range: "Compare a b = - 1 \<or> Compare a b = 0 \<or> Compare a b = 1"
  by (induction a b rule: Compare.induct) auto

lemma Compare_Cons_le:
  "(Compare (x # xs) (y # ys) \<le> 0) =
     ((of_char x :: nat) < of_char y \<or> (x = y \<and> Compare xs ys \<le> 0))"
  by auto

lemma Compare_trans: "Compare a b \<le> 0 \<Longrightarrow> Compare b c \<le> 0 \<Longrightarrow> Compare a c \<le> 0"
proof (induction a arbitrary: b c)
  case Nil
  then show ?case by (cases c) simp_all
next
  case (Cons x xs)
  from Cons.prems(1) obtain y ys where b: "b = y # ys" by (cases b) simp_all
  from Cons.prems(2) b obtain z zs where c: "c = z # zs" by (cases c) simp_all
  from Cons.prems(1) b
  have ab: "(of_char x :: nat) < of_char y \<or> (x = y \<and> Compare xs ys \<le> 0)"
    by (simp only: Compare_Cons_le)
  from Cons.prems(2) b c
  have bc: "(of_char y :: nat) < of_char z \<or> (y = z \<and> Compare ys zs \<le> 0)"
    by (simp only: Compare_Cons_le)
  from ab bc
  have "(of_char x :: nat) < of_char z \<or> (x = z \<and> Compare xs zs \<le> 0)"
  proof (elim disjE conjE)
    assume "(of_char x :: nat) < of_char y" "(of_char y :: nat) < of_char z"
    then show ?thesis by simp
  next
    assume "(of_char x :: nat) < of_char y" "y = z"
    then show ?thesis by simp
  next
    assume "x = y" "(of_char y :: nat) < of_char z"
    then show ?thesis by simp
  next
    assume "x = y" "y = z" "Compare xs ys \<le> 0" "Compare ys zs \<le> 0"
    with Cons.IH[of ys zs] show ?thesis by simp
  qed
  then show ?case unfolding c by (simp only: Compare_Cons_le)
qed

text \<open>Below zero, \<^const>\<open>Compare\<close> is the lexicographic order of the byte values.\<close>

lemma Compare_less_lexord:
  "(Compare a b < 0) = ((a, b) \<in> lexord {(x, y). (of_char x :: nat) < of_char y})"
  by (induction a b rule: Compare.induct) auto

lemma Compare_le_lexord:
  "(Compare a b \<le> 0) = (a = b \<or> (a, b) \<in> lexord {(x, y). (of_char x :: nat) < of_char y})"
  using Compare_less_lexord[of a b] Compare_eq_0[of a b] Compare_same[of a]
  by (cases "a = b") auto

lemma sessionsFirst_le:
  "(sessionsFirst pfx a b \<le> 0) =
     ((HasPrefix a pfx \<and> \<not> HasPrefix b pfx) \<or>
      (HasPrefix a pfx = HasPrefix b pfx \<and> Compare a b \<le> 0))"
  by (auto simp: sessionsFirst_def Let_def)

lemma sessionsFirst_total: "sessionsFirst pfx a b \<le> 0 \<or> sessionsFirst pfx b a \<le> 0"
  using Compare_flip[of a b] by (auto simp: sessionsFirst_le)

lemma sessionsFirst_trans:
  "sessionsFirst pfx a b \<le> 0 \<Longrightarrow> sessionsFirst pfx b c \<le> 0 \<Longrightarrow> sessionsFirst pfx a c \<le> 0"
  using Compare_trans[of a b c] by (auto simp: sessionsFirst_le)

lemma sessionsFirst_antisym:
  "sessionsFirst pfx a b \<le> 0 \<Longrightarrow> sessionsFirst pfx b a \<le> 0 \<Longrightarrow> a = b"
  using Compare_flip[of a b] Compare_eq_0[of a b] by (auto simp: sessionsFirst_le)

lemma mset_insertFunc: "mset (insertFunc cmp x xs) = add_mset x (mset xs)"
  by (induction xs) simp_all

lemma mset_SortFunc: "mset (SortFunc cmp xs) = mset xs"
  by (induction xs) (simp_all add: SortFunc_def mset_insertFunc)

lemma set_insertFunc: "set (insertFunc cmp x xs) = insert x (set xs)"
  using mset_insertFunc[of cmp x xs, THEN arg_cong, of set_mset] by simp

lemma sorted_insertFunc:
  assumes total: "\<And>a b. cmp a b \<le> 0 \<or> cmp b a \<le> 0"
    and trans: "\<And>a b c. cmp a b \<le> 0 \<Longrightarrow> cmp b c \<le> 0 \<Longrightarrow> cmp a c \<le> 0"
  shows "sorted_wrt (\<lambda>a b. cmp a b \<le> 0) xs \<Longrightarrow>
         sorted_wrt (\<lambda>a b. cmp a b \<le> 0) (insertFunc cmp x xs)"
proof (induction xs)
  case Nil
  show ?case by simp
next
  case (Cons y ys)
  show ?case
  proof (cases "cmp x y \<le> 0")
    case True
    have "cmp x z \<le> 0" if "z \<in> set ys" for z
      using that Cons.prems True trans[of x y z] by simp
    with True Cons.prems show ?thesis by simp
  next
    case False
    with total[of x y] have "cmp y x \<le> 0" by simp
    with False Cons show ?thesis by (simp add: set_insertFunc)
  qed
qed

lemma sorted_SortFunc:
  assumes total: "\<And>a b. cmp a b \<le> 0 \<or> cmp b a \<le> 0"
    and trans: "\<And>a b c. cmp a b \<le> 0 \<Longrightarrow> cmp b c \<le> 0 \<Longrightarrow> cmp a c \<le> 0"
  shows "sorted_wrt (\<lambda>a b. cmp a b \<le> 0) (SortFunc cmp xs)"
proof (induction xs)
  case Nil
  show ?case by (simp add: SortFunc_def)
next
  case (Cons x xs)
  have "sorted_wrt (\<lambda>a b. cmp a b \<le> 0) (insertFunc cmp x (SortFunc cmp xs))"
    by (rule sorted_insertFunc) (fact total, fact trans, fact Cons.IH)
  then show ?case by (simp add: SortFunc_def)
qed

lemma ascending_unique:
  assumes antisym: "\<And>a b. cmp a b \<le> 0 \<Longrightarrow> cmp b a \<le> 0 \<Longrightarrow> a = b"
  shows "sorted_wrt (\<lambda>a b. cmp a b \<le> 0) xs \<Longrightarrow> sorted_wrt (\<lambda>a b. cmp a b \<le> 0) ys \<Longrightarrow>
         mset xs = mset ys \<Longrightarrow> xs = ys"
proof (induction xs arbitrary: ys)
  case Nil
  then show ?case by simp
next
  case (Cons x xs)
  from Cons.prems(3) obtain y ys' where ys: "ys = y # ys'" by (cases ys) auto
  have "x \<in> set ys" using Cons.prems(3) by (metis list.set_intros(1) set_mset_mset)
  then have x: "x = y \<or> cmp y x \<le> 0" using Cons.prems(2) ys by auto
  have "y \<in> set (x # xs)" using Cons.prems(3) ys by (metis list.set_intros(1) set_mset_mset)
  then have y: "x = y \<or> cmp x y \<le> 0" using Cons.prems(1) by auto
  from x y antisym have same: "x = y" by blast
  with Cons.prems ys have "xs = ys'" by (intro Cons.IH) simp_all
  with same ys show ?case by simp
qed

lemma SortFunc_unique:
  assumes "\<And>a b. cmp a b \<le> 0 \<or> cmp b a \<le> 0"
    and "\<And>a b c. cmp a b \<le> 0 \<Longrightarrow> cmp b c \<le> 0 \<Longrightarrow> cmp a c \<le> 0"
    and "\<And>a b. cmp a b \<le> 0 \<Longrightarrow> cmp b a \<le> 0 \<Longrightarrow> a = b"
    and "sorted_wrt (\<lambda>a b. cmp a b \<le> 0) ys" and "mset ys = mset xs"
  shows "ys = SortFunc cmp xs"
proof (rule ascending_unique[where cmp = cmp])
  show "\<And>a b. cmp a b \<le> 0 \<Longrightarrow> cmp b a \<le> 0 \<Longrightarrow> a = b" by (fact assms(3))
  show "sorted_wrt (\<lambda>a b. cmp a b \<le> 0) ys" by fact
  show "sorted_wrt (\<lambda>a b. cmp a b \<le> 0) (SortFunc cmp xs)"
    by (rule sorted_SortFunc) (fact assms(1), fact assms(2))
  show "mset ys = mset (SortFunc cmp xs)" using assms(5) by (simp add: mset_SortFunc)
qed

lemma pickerNames_unique:
  "sorted_wrt (\<lambda>a b. sessionsFirst (TmuxSessionPrefix cfg) a b \<le> 0) ys \<Longrightarrow>
   mset ys = mset names \<Longrightarrow> ys = pickerNames cfg names"
  unfolding pickerNames_def
  by (rule SortFunc_unique)
     (rule sessionsFirst_total, erule (1) sessionsFirst_trans, erule (1) sessionsFirst_antisym)

lemma pickerNames_example:
  "TmuxSessionPrefix cfg = ''TMUX/'' \<Longrightarrow>
   pickerNames cfg [''alpha'', ''TMUX/zeta'', ''beta'', ''TMUX/gamma''] =
     [''TMUX/gamma'', ''TMUX/zeta'', ''alpha'', ''beta'']"
  by (simp add: pickerNames_def SortFunc_def sessionsFirst_def HasPrefix_def)


section \<open>Properties of display names\<close>

text \<open>
  After the collection phase the slot of a base name in \<^verbatim>\<open>pathsByBaseName\<close> holds the
  candidates with that base name, in the order of \<^verbatim>\<open>allPaths\<close>. A candidate whose slot
  holds more than one gets its base name followed by the base name of its parent directory
  in parentheses, the others their base name; a non-empty prefix and a slash go in front.
\<close>

lemma createDisplayName_shared_base:
  "1 < length (slicesAt idx (Base (PathInfo.Path info))) \<Longrightarrow>
   createDisplayName info idx =
     (if Prefix info \<noteq> [] then Prefix info @ ''/'' else []) @
     Base (PathInfo.Path info) @ '' ('' @ Base (Dir (PathInfo.Path info)) @ '')''"
  by (simp add: createDisplayName_def Let_def)

lemma createDisplayName_single_base:
  "length (slicesAt idx (Base (PathInfo.Path info))) \<le> 1 \<Longrightarrow>
   createDisplayName info idx =
     (if Prefix info \<noteq> [] then Prefix info @ ''/'' else []) @ Base (PathInfo.Path info)"
  by (simp add: createDisplayName_def Let_def)

lemma pathsByBaseName_index:
  assumes "collectPaths env cfg flagDepth = Inr st"
  shows "slicesAt (pathsByBaseName st) name =
           filter (\<lambda>info. Base (PathInfo.Path info) = name) (allPaths st)"
proof -
  let ?P = "\<lambda>s. \<forall>n. slicesAt (pathsByBaseName s) n =
                  filter (\<lambda>info. Base (PathInfo.Path info) = n) (allPaths s)"
  have "?P st"
  proof (rule collectPaths_invariant[where P = ?P, OF _ _ assms])
    show "?P \<lparr>allPaths = [], pathsByBaseName = Map.empty\<rparr>"
      by (simp add: slicesAt_def)
  next
    fix s p pre s'
    assume inv: "?P s"
      and add: "addPath env (buildIgnoreSet env (IgnoreDirs cfg) {}) s p pre = Inr s'"
    from addPath_cases[of env "buildIgnoreSet env (IgnoreDirs cfg) {}" s p pre]
    show "?P s'"
    proof (elim disjE exE conjE)
      assume "addPath env (buildIgnoreSet env (IgnoreDirs cfg) {}) s p pre = Inr s"
      with add inv show ?thesis by simp
    next
      fix resolved
      assume eq: "addPath env (buildIgnoreSet env (IgnoreDirs cfg) {}) s p pre =
          Inr \<lparr>allPaths = allPaths s @ [\<lparr>PathInfo.Path = resolved, Prefix = pre\<rparr>],
               pathsByBaseName = (pathsByBaseName s)(Base resolved \<mapsto>
                 slicesAt (pathsByBaseName s) (Base resolved) @
                   [\<lparr>PathInfo.Path = resolved, Prefix = pre\<rparr>])\<rparr>"
      from add eq have s': "s' =
          \<lparr>allPaths = allPaths s @ [\<lparr>PathInfo.Path = resolved, Prefix = pre\<rparr>],
           pathsByBaseName = (pathsByBaseName s)(Base resolved \<mapsto>
             slicesAt (pathsByBaseName s) (Base resolved) @
               [\<lparr>PathInfo.Path = resolved, Prefix = pre\<rparr>])\<rparr>" by simp
      show ?thesis
      proof
        fix n
        from inv have at: "slicesAt (pathsByBaseName s) m =
            filter (\<lambda>info. Base (PathInfo.Path info) = m) (allPaths s)" for m by simp
        show "slicesAt (pathsByBaseName s') n =
            filter (\<lambda>info. Base (PathInfo.Path info) = n) (allPaths s')"
        proof (cases "n = Base resolved")
          case True
          then show ?thesis unfolding s' using at[of "Base resolved"]
            by (simp add: slicesAt_def)
        next
          case False
          then show ?thesis unfolding s' using at[of n]
            by (simp add: slicesAt_def)
        qed
      qed
    qed
  qed
  then show ?thesis by simp
qed

text \<open>
  So every candidate that shares its base name with another collected candidate gets the
  parent-qualified form. Two candidates that agree in base name, in the base name of the
  parent directory and in prefix get the same display name.
\<close>

lemma shared_base_name_form:
  assumes "collectPaths env cfg flagDepth = Inr st"
    and "1 < length (filter (\<lambda>other. Base (PathInfo.Path other) = Base (PathInfo.Path info))
                      (allPaths st))"
  shows "createDisplayName info (pathsByBaseName st) =
           (if Prefix info \<noteq> [] then Prefix info @ ''/'' else []) @
           Base (PathInfo.Path info) @ '' ('' @ Base (Dir (PathInfo.Path info)) @ '')''"
  using assms(2) pathsByBaseName_index[OF assms(1), of "Base (PathInfo.Path info)"]
  by (intro createDisplayName_shared_base) simp

lemma same_parent_same_name:
  assumes "Base (PathInfo.Path a) = Base (PathInfo.Path b)"
    and "Base (Dir (PathInfo.Path a)) = Base (Dir (PathInfo.Path b))"
    and "Prefix a = Prefix b"
  shows "createDisplayName a idx = createDisplayName b idx"
  using assms by (simp add: createDisplayName_def Let_def)

section \<open>The claims\<close>

text \<open>
  Claim C1, evaluated where it fails. Two explicit entries \<^verbatim>\<open>/a/x/proj\<close> and
  \<^verbatim>\<open>/b/x/proj\<close> share the base name and the name of the parent directory. Both are
  collected, both get the display name \<^verbatim>\<open>proj (x)\<close>, and the second insertion overwrites
  the first: the table has one entry.
\<close>

theorem colliding_parent_names_overwrite:
  "allPaths (projr (collectPaths (demoEnv\<lparr>GetTmuxSessionSet := [], GetCurrentTmuxSession := ''''\<rparr>)
      (demoCfg\<lparr>ScanDirs := [], EntryDirs := [''/a/x/proj'', ''/b/x/proj'']\<rparr>) 0)) =
     [\<lparr>PathInfo.Path = ''/a/x/proj'', Prefix = ''''\<rparr>,
      \<lparr>PathInfo.Path = ''/b/x/proj'', Prefix = ''''\<rparr>] \<and>
   buildDirectoryEntries (demoEnv\<lparr>GetTmuxSessionSet := [], GetCurrentTmuxSession := ''''\<rparr>)
      (demoCfg\<lparr>ScanDirs := [], EntryDirs := [''/a/x/proj'', ''/b/x/proj'']\<rparr>) 0 =
     Inr [''proj (x)'' \<mapsto> ''/b/x/proj'']"
  by (simp add: buildDirectoryEntries_def collectPaths_def directoryEntries_def addPath_def
      createDisplayName_def shouldSkipEntry_def boolAt_def slicesAt_def Base_def Dir_def
      Clean_def IsPathSeparator_def Let_def demoEnv_def demoCfg_def)

text \<open>
  A second way to two insertions under one key: the scan root \<^verbatim>\<open>/w\<close> has the alias
  \<^verbatim>\<open>TMUX\<close>, the session prefix is \<^verbatim>\<open>TMUX/\<close>, and a session \<^verbatim>\<open>api\<close> is live. The
  directory \<^verbatim>\<open>/w/api\<close> gets the key \<^verbatim>\<open>TMUX/api\<close>, which is no session name and so is
  not skipped; the entry of the live session then replaces it.
\<close>

lemma directory_key_replaced_by_live_key:
  "directoryEntries (demoEnv\<lparr>GetTmuxSessionSet := [(''api'', True)], GetCurrentTmuxSession := ''''\<rparr>)
     (projr (collectPaths
        (demoEnv\<lparr>GetTmuxSessionSet := [(''api'', True)], GetCurrentTmuxSession := ''''\<rparr>)
        (demoCfg\<lparr>ScanDirs := [\<lparr>ScanDir.Path = ''/w'', Depth = None, Alias = ''TMUX''\<rparr>],
                 EntryDirs := []\<rparr>) 0)) =
     [''TMUX/api'' \<mapsto> ''/w/api'', ''TMUX/main'' \<mapsto> ''/w/main''] \<and>
   buildDirectoryEntries
     (demoEnv\<lparr>GetTmuxSessionSet := [(''api'', True)], GetCurrentTmuxSession := ''''\<rparr>)
     (demoCfg\<lparr>ScanDirs := [\<lparr>ScanDir.Path = ''/w'', Depth = None, Alias = ''TMUX''\<rparr>],
              EntryDirs := []\<rparr>) 0 =
     Inr [''TMUX/api'' \<mapsto> ''api'', ''TMUX/main'' \<mapsto> ''/w/main'']"
  by (simp add: buildDirectoryEntries_def collectPaths_def directoryEntries_def addPath_def
      processScanDir_def GetDepth_def
      createDisplayName_def shouldSkipEntry_def boolAt_def slicesAt_def Base_def Dir_def
      Clean_def IsPathSeparator_def Let_def demoEnv_def demoCfg_def fun_upd_twist)

text \<open>
  Claim C2, evaluated where it fails. Three candidates share the base name \<^verbatim>\<open>proj\<close>; each
  gets the form \<open>base (parent)\<close>, and the names of the two whose parent directories are both
  called \<^verbatim>\<open>x\<close> coincide.
\<close>

theorem parent_qualified_names_coincide:
  "map (\<lambda>info. createDisplayName info
          (pathsByBaseName (projr (collectPaths
             (demoEnv\<lparr>GetTmuxSessionSet := [], GetCurrentTmuxSession := ''''\<rparr>)
             (demoCfg\<lparr>ScanDirs := [],
                      EntryDirs := [''/a/x/proj'', ''/b/x/proj'', ''/c/y/proj'']\<rparr>) 0))))
     (allPaths (projr (collectPaths
        (demoEnv\<lparr>GetTmuxSessionSet := [], GetCurrentTmuxSession := ''''\<rparr>)
        (demoCfg\<lparr>ScanDirs := [],
                 EntryDirs := [''/a/x/proj'', ''/b/x/proj'', ''/c/y/proj'']\<rparr>) 0))) =
     [''proj (x)'', ''proj (x)'', ''proj (y)'']"
  by (simp add: collectPaths_def addPath_def
      createDisplayName_def slicesAt_def Base_def Dir_def
      Clean_def IsPathSeparator_def Let_def demoEnv_def demoCfg_def)




text \<open>
  Claim C4. Let \<open>p\<close> be in the ignore set, the set of the configured ignore paths that
  resolve. A candidate that resolves to \<open>p\<close> is skipped by \<^verbatim>\<open>addPath\<close>, under any prefix;
  after all scan roots and explicit entries are collected no candidate has the path \<open>p\<close>,
  and no entry of the directory phase has the value \<open>p\<close>. The final table adds the live
  sessions, whose values are session names: the only key of the final table whose value is
  the string \<open>p\<close> is \<open>sessionPrefix + p\<close>, the entry of a live session itself named \<open>p\<close>, if
  there is one. So the path is the target of no entry.
\<close>

theorem ignored_path_never_a_directory_value:
  assumes "buildDirectoryEntries env cfg flagDepth = Inr entries"
    and "p \<in> buildIgnoreSet env (IgnoreDirs cfg) {}"
  shows "(ResolvePath env candidate = Some p \<longrightarrow>
            addPath env (buildIgnoreSet env (IgnoreDirs cfg) {}) st0 candidate prefix = Inr st0) \<and>
         (collectPaths env cfg flagDepth = Inr st \<longrightarrow>
            (\<forall>info \<in> set (allPaths st). PathInfo.Path info \<noteq> p) \<and>
            directoryEntries env st k \<noteq> Some p) \<and>
         (entries k = Some p) =
           (p \<in> fst ` set (GetTmuxSessionSet env) \<and> p \<noteq> GetCurrentTmuxSession env \<and>
            k = TmuxSessionPrefix cfg @ p)"
proof -
  have skip: "ResolvePath env candidate = Some p \<longrightarrow>
      addPath env (buildIgnoreSet env (IgnoreDirs cfg) {}) st0 candidate prefix = Inr st0"
    using assms(2) by (simp add: addPath_def)
  have cand: "\<forall>info \<in> set (allPaths s). PathInfo.Path info \<noteq> p"
    if "collectPaths env cfg flagDepth = Inr s" for s
    using collected_not_ignored[OF that] assms(2) by blast
  have dir: "directoryEntries env s k' \<noteq> Some p" if "collectPaths env cfg flagDepth = Inr s" for s k'
    using cand[OF that] directoryEntries_values[of env s k' p] by blast
  obtain st' where st': "collectPaths env cfg flagDepth = Inr st'"
    and tab: "\<forall>k. entries k =
      (if \<exists>s \<in> fst ` set (GetTmuxSessionSet env).
            s \<noteq> GetCurrentTmuxSession env \<and> TmuxSessionPrefix cfg @ s = k
       then Some (drop (length (TmuxSessionPrefix cfg)) k)
       else directoryEntries env st' k)"
    using buildDirectoryEntries_apply[OF assms(1)] by blast
  have live: "(entries k = Some p) =
      (p \<in> fst ` set (GetTmuxSessionSet env) \<and> p \<noteq> GetCurrentTmuxSession env \<and>
       k = TmuxSessionPrefix cfg @ p)"
  proof (cases "\<exists>s \<in> fst ` set (GetTmuxSessionSet env).
            s \<noteq> GetCurrentTmuxSession env \<and> TmuxSessionPrefix cfg @ s = k")
    case True
    then obtain s where s: "s \<in> fst ` set (GetTmuxSessionSet env)"
      "s \<noteq> GetCurrentTmuxSession env" "TmuxSessionPrefix cfg @ s = k" by blast
    from tab True have "entries k = Some (drop (length (TmuxSessionPrefix cfg)) k)" by simp
    with s(3) have "entries k = Some s" by auto
    with s show ?thesis by auto
  next
    case False
    from tab have "entries k =
      (if \<exists>s \<in> fst ` set (GetTmuxSessionSet env).
            s \<noteq> GetCurrentTmuxSession env \<and> TmuxSessionPrefix cfg @ s = k
       then Some (drop (length (TmuxSessionPrefix cfg)) k)
       else directoryEntries env st' k)" by (rule spec)
    with False have "entries k = directoryEntries env st' k" by (simp only: if_False)
    with dir[OF st'] have "entries k \<noteq> Some p" by simp
    with False show ?thesis by blast
  qed
  from skip cand dir live show ?thesis by blast
qed

theorem ignored_path_never_a_directory_value_witness:
  "buildDirectoryEntries demoEnv demoCfg 0 =
     Inr [''work/api'' \<mapsto> ''/w/api'', ''etc'' \<mapsto> ''/etc'', ''TMUX/notes'' \<mapsto> ''notes''] \<and>
   ''/tmp'' \<in> set (EntryDirs demoCfg) \<and>
   ''/tmp'' \<in> buildIgnoreSet demoEnv (IgnoreDirs demoCfg) {} \<and>
   ResolvePath demoEnv ''/tmp'' = Some ''/tmp'' \<and>
   addPath demoEnv (buildIgnoreSet demoEnv (IgnoreDirs demoCfg) {})
     \<lparr>allPaths = [], pathsByBaseName = Map.empty\<rparr> ''/tmp'' '''' =
     Inr \<lparr>allPaths = [], pathsByBaseName = Map.empty\<rparr> \<and>
   collectPaths demoEnv demoCfg 0 = Inr (projr (collectPaths demoEnv demoCfg 0)) \<and>
   map PathInfo.Path (allPaths (projr (collectPaths demoEnv demoCfg 0))) = [''/w/api'', ''/etc''] \<and>
   directoryEntries demoEnv (projr (collectPaths demoEnv demoCfg 0)) ''tmp'' \<noteq> Some ''/tmp'' \<and>
   [''work/api'' \<mapsto> ''/w/api'', ''etc'' \<mapsto> ''/etc'', ''TMUX/notes'' \<mapsto> ''notes''] ''tmp''
     \<noteq> Some ''/tmp'' \<and>
   ''/tmp'' \<notin> ran [''work/api'' \<mapsto> ''/w/api'', ''etc'' \<mapsto> ''/etc'', ''TMUX/notes'' \<mapsto> ''notes'']"
proof -
  have ignored: "''/tmp'' \<in> buildIgnoreSet demoEnv (IgnoreDirs demoCfg) {}"
    by (simp add: demoEnv_def demoCfg_def)
  have resolved: "ResolvePath demoEnv ''/tmp'' = Some ''/tmp''"
    by (simp add: demoEnv_def)
  have absent: "''/tmp'' \<notin> ran [''work/api'' \<mapsto> ''/w/api'', ''etc'' \<mapsto> ''/etc'',
      ''TMUX/notes'' \<mapsto> ''notes'']"
    by (auto simp: ran_def split: if_splits)
  show ?thesis
    using ignored_path_never_a_directory_value[OF demo_entries ignored,
        of "''/tmp''" "\<lparr>allPaths = [], pathsByBaseName = Map.empty\<rparr>" "''''"
           "projr (collectPaths demoEnv demoCfg 0)" "''tmp''"]
      ignored resolved absent demo_entries
    by (simp add: demo_collect) (simp add: demoCfg_def)
qed

text \<open>
  Claim C5, on the depth rule and the scanner as the spec words them. An override of \<open>2\<close>
  beats a configured depth of \<open>5\<close> and a default of \<open>3\<close>; without an override the configured
  \<open>5\<close> is taken; with neither, the default. In general a positive override wins, then the
  depth of the source, then the default. \<^verbatim>\<open>processScanDir\<close> hands the depth so found to
  the scanner. Where the winning level holds zero the depth is zero, and at depth zero the
  scanner lists the readable directories directly inside the root and nothing below them.
\<close>

theorem effective_depth_precedence:
  "GetDepth \<lparr>ScanDir.Path = root, Depth = Some 5, Alias = alias\<rparr> 2 3 = 2 \<and>
   GetDepth \<lparr>ScanDir.Path = root, Depth = Some 5, Alias = alias\<rparr> 0 defaultDepth = 5 \<and>
   GetDepth \<lparr>ScanDir.Path = root, Depth = None, Alias = alias\<rparr> 0 defaultDepth = defaultDepth \<and>
   (0 < flagDepth \<longrightarrow> GetDepth scanDir flagDepth defaultDepth = flagDepth) \<and>
   (Depth scanDir = Some d \<longrightarrow> GetDepth scanDir 0 defaultDepth = d) \<and>
   (Depth scanDir = None \<longrightarrow> GetDepth scanDir 0 defaultDepth = defaultDepth) \<and>
   (ResolvePath env (ScanDir.Path scanDir) = Some resolved \<longrightarrow>
      processScanDir env cfg scanDir flagDepth prefix addEntry st =
        (case GetSubDirs env (GetDepth scanDir flagDepth (DefaultDepth cfg)) resolved of
           None \<Rightarrow> Inr st
         | Some subDirs \<Rightarrow> forSubDirs addEntry prefix subDirs st)) \<and>
   GetDepth \<lparr>ScanDir.Path = root, Depth = Some 0, Alias = alias\<rparr> 0 defaultDepth = 0 \<and>
   GetDepth \<lparr>ScanDir.Path = root, Depth = None, Alias = alias\<rparr> 0 0 = 0 \<and>
   scanSubtree 0 root (Directory name True content) =
     Some [root @ ''/'' @ sub. Directory sub True below \<leftarrow> content]"
proof -
  have flat: "concat (map (subDirsBelow 0 root) content) =
      [root @ ''/'' @ sub. Directory sub True below \<leftarrow> content]"
  proof (induction content)
    case Nil
    show ?case by simp
  next
    case (Cons node nodes)
    then show ?case by (cases node) (simp_all add: Let_def)
  qed
  show ?thesis
    by (simp add: GetDepth_def processScanDir_def scanSubtree_def flat)
qed

theorem effective_depth_precedence_witness:
  "(0 :: int) < 2 \<and>
   GetDepth \<lparr>ScanDir.Path = ''/w'', Depth = Some 5, Alias = ''work''\<rparr> 2 3 = 2 \<and>
   Depth \<lparr>ScanDir.Path = ''/w'', Depth = Some 5, Alias = ''work''\<rparr> = Some 5 \<and>
   GetDepth \<lparr>ScanDir.Path = ''/w'', Depth = Some 5, Alias = ''work''\<rparr> 0 3 = 5 \<and>
   Depth \<lparr>ScanDir.Path = ''/w'', Depth = None, Alias = ''work''\<rparr> = None \<and>
   GetDepth \<lparr>ScanDir.Path = ''/w'', Depth = None, Alias = ''work''\<rparr> 0 3 = 3 \<and>
   ResolvePath demoEnv (ScanDir.Path \<lparr>ScanDir.Path = ''/w'', Depth = Some 0, Alias = ''work''\<rparr>) =
     Some ''/w'' \<and>
   GetDepth \<lparr>ScanDir.Path = ''/w'', Depth = Some 0, Alias = ''work''\<rparr> 0 (DefaultDepth demoCfg) = 0 \<and>
   processScanDir demoEnv demoCfg \<lparr>ScanDir.Path = ''/w'', Depth = Some 0, Alias = ''work''\<rparr> 0
       ''work'' (addPath demoEnv {}) \<lparr>allPaths = [], pathsByBaseName = Map.empty\<rparr> =
     forSubDirs (addPath demoEnv {}) ''work'' [''/w/api'', ''/w/main'']
       \<lparr>allPaths = [], pathsByBaseName = Map.empty\<rparr> \<and>
   scanSubtree 0 ''/w''
       (Directory ''w'' True
          [Directory ''api'' True [Directory ''src'' True []], File ''README'',
           Directory ''locked'' False [], Directory ''main'' True []]) =
     Some [''/w/api'', ''/w/main'']"
proof -
  have resolved: "ResolvePath demoEnv
      (ScanDir.Path \<lparr>ScanDir.Path = ''/w'', Depth = Some 0, Alias = ''work''\<rparr>) = Some ''/w''"
    by (simp add: demoEnv_def)
  have subdirs: "GetSubDirs demoEnv 0 ''/w'' = Some [''/w/api'', ''/w/main'']"
    by (simp add: demoEnv_def)
  from effective_depth_precedence[of "''/w''" "''work''" 3 2
      "\<lparr>ScanDir.Path = ''/w'', Depth = Some 0, Alias = ''work''\<rparr>" 0 demoEnv "''/w''" demoCfg
      "''work''" "addPath demoEnv {}" "\<lparr>allPaths = [], pathsByBaseName = Map.empty\<rparr>" "''w''"
      "[Directory ''api'' True [Directory ''src'' True []], File ''README'',
        Directory ''locked'' False [], Directory ''main'' True []]"]
    resolved subdirs
  show ?thesis by (simp add: GetDepth_def processScanDir_def)
qed

text \<open>
  Claim C6. The names handed to the picker are the keys of the table, rearranged so that for
  any two positions \<open>i < j\<close>: if the name at \<open>j\<close> carries the live-session prefix, so does
  the name at \<open>i\<close>; and if both or neither carry it, the name at \<open>i\<close> is not after the name at
  \<open>j\<close> in byte order. With the prefix \<^verbatim>\<open>TMUX/\<close> the names alpha, TMUX/zeta, beta,
  TMUX/gamma come out as TMUX/gamma, TMUX/zeta, alpha, beta.
\<close>

theorem picker_names_sessions_first_then_lexicographic:
  "mset (pickerNames cfg names) = mset names \<and>
   (\<forall>i j. i < j \<and> j < length names \<longrightarrow>
      (HasPrefix (pickerNames cfg names ! j) (TmuxSessionPrefix cfg) \<longrightarrow>
         HasPrefix (pickerNames cfg names ! i) (TmuxSessionPrefix cfg)) \<and>
      (HasPrefix (pickerNames cfg names ! i) (TmuxSessionPrefix cfg) =
         HasPrefix (pickerNames cfg names ! j) (TmuxSessionPrefix cfg) \<longrightarrow>
         Compare (pickerNames cfg names ! i) (pickerNames cfg names ! j) \<le> 0)) \<and>
   (TmuxSessionPrefix cfg = ''TMUX/'' \<longrightarrow>
      pickerNames cfg [''alpha'', ''TMUX/zeta'', ''beta'', ''TMUX/gamma''] =
        [''TMUX/gamma'', ''TMUX/zeta'', ''alpha'', ''beta''])"
proof (intro conjI allI impI)
  show perm: "mset (pickerNames cfg names) = mset names"
    by (simp add: pickerNames_def mset_SortFunc)
  have sorted: "sorted_wrt (\<lambda>a b. sessionsFirst (TmuxSessionPrefix cfg) a b \<le> 0)
      (pickerNames cfg names)"
    unfolding pickerNames_def
    by (rule sorted_SortFunc) (rule sessionsFirst_total, erule (1) sessionsFirst_trans)
  have len: "length (pickerNames cfg names) = length names"
    using perm by (rule mset_eq_length)
  {
    fix i j
    assume ij: "i < j \<and> j < length names"
    with sorted len
    have le: "sessionsFirst (TmuxSessionPrefix cfg) (pickerNames cfg names ! i)
        (pickerNames cfg names ! j) \<le> 0"
      by (simp add: sorted_wrt_iff_nth_less)
    {
      assume "HasPrefix (pickerNames cfg names ! j) (TmuxSessionPrefix cfg)"
      with le show "HasPrefix (pickerNames cfg names ! i) (TmuxSessionPrefix cfg)"
        by (auto simp: sessionsFirst_le)
    }
    {
      assume "HasPrefix (pickerNames cfg names ! i) (TmuxSessionPrefix cfg) =
         HasPrefix (pickerNames cfg names ! j) (TmuxSessionPrefix cfg)"
      with le show "Compare (pickerNames cfg names ! i) (pickerNames cfg names ! j) \<le> 0"
        by (auto simp: sessionsFirst_le)
    }
  }
  {
    assume "TmuxSessionPrefix cfg = ''TMUX/''"
    then show "pickerNames cfg [''alpha'', ''TMUX/zeta'', ''beta'', ''TMUX/gamma''] =
        [''TMUX/gamma'', ''TMUX/zeta'', ''alpha'', ''beta'']"
      by (rule pickerNames_example)
  }
qed

theorem picker_names_sessions_first_then_lexicographic_witness:
  "TmuxSessionPrefix demoCfg = ''TMUX/'' \<and>
   pickerNames demoCfg [''alpha'', ''TMUX/zeta'', ''beta'', ''TMUX/gamma''] =
     [''TMUX/gamma'', ''TMUX/zeta'', ''alpha'', ''beta''] \<and>
   (0 :: nat) < 1 \<and> 1 < length [''alpha'', ''TMUX/zeta'', ''beta'', ''TMUX/gamma''] \<and>
   HasPrefix (pickerNames demoCfg [''alpha'', ''TMUX/zeta'', ''beta'', ''TMUX/gamma''] ! 1)
     (TmuxSessionPrefix demoCfg) \<and>
   HasPrefix (pickerNames demoCfg [''alpha'', ''TMUX/zeta'', ''beta'', ''TMUX/gamma''] ! 0)
     (TmuxSessionPrefix demoCfg) \<and>
   Compare (pickerNames demoCfg [''alpha'', ''TMUX/zeta'', ''beta'', ''TMUX/gamma''] ! 0)
     (pickerNames demoCfg [''alpha'', ''TMUX/zeta'', ''beta'', ''TMUX/gamma''] ! 1) \<le> 0"
proof -
  have pfx: "TmuxSessionPrefix demoCfg = ''TMUX/''" by (simp add: demoCfg_def)
  from picker_names_sessions_first_then_lexicographic[of demoCfg
      "[''alpha'', ''TMUX/zeta'', ''beta'', ''TMUX/gamma'']"] pfx
  have out: "pickerNames demoCfg [''alpha'', ''TMUX/zeta'', ''beta'', ''TMUX/gamma''] =
      [''TMUX/gamma'', ''TMUX/zeta'', ''alpha'', ''beta'']" by blast
  show ?thesis
    unfolding out pfx by (simp add: HasPrefix_def)
qed

text \<open>
  Claim C7. The engine is a function of the configuration, the file system, the session map
  and the current session. The one map it ranges over is the session map; two enumerations
  \<open>ss\<close> and \<open>ss'\<close> of the same map (\<open>map_of ss = map_of ss'\<close>) give the same result: the
  same table, key for key, or the same error.
\<close>

theorem table_independent_of_session_iteration_order:
  assumes "map_of ss = map_of ss'"
  shows "buildDirectoryEntries (env\<lparr>GetTmuxSessionSet := ss\<rparr>) cfg flagDepth =
         buildDirectoryEntries (env\<lparr>GetTmuxSessionSet := ss'\<rparr>) cfg flagDepth"
proof -
  have names: "set (map fst ss) = set (map fst ss')"
    using assms by (simp add: session_names_of_map)
  have live: "forSessions cur pfx (map fst ss) entries = forSessions cur pfx (map fst ss') entries"
    for cur pfx entries
    by (rule ext) (simp only: forSessions_apply names)
  have dirs: "directoryEntries (env\<lparr>GetTmuxSessionSet := ss\<rparr>) st =
              directoryEntries (env\<lparr>GetTmuxSessionSet := ss'\<rparr>) st" for st
    using forAllPaths_same_sessions[OF assms] by (simp add: directoryEntries_def)
  show ?thesis
    by (simp add: buildDirectoryEntries_def collectPaths_sessions_update live dirs
        split: sum.split)
qed

theorem table_independent_of_session_iteration_order_witness:
  "map_of [(''notes'', True), (''main'', True)] = map_of [(''main'', True), (''notes'', True)] \<and>
   buildDirectoryEntries (demoEnv\<lparr>GetTmuxSessionSet := [(''notes'', True), (''main'', True)]\<rparr>) demoCfg 0 =
   buildDirectoryEntries (demoEnv\<lparr>GetTmuxSessionSet := [(''main'', True), (''notes'', True)]\<rparr>) demoCfg 0"
proof -
  have same: "map_of [(''notes'', True), (''main'', True)] =
      map_of [(''main'', True), (''notes'', True)]"
    by (rule ext) simp
  from table_independent_of_session_iteration_order[OF same, of demoEnv demoCfg 0] same
  show ?thesis by simp
qed


text \<open>
  Claim C8. A scan root whose path does not resolve contributes nothing:
  \<^verbatim>\<open>processScanDir\<close> returns at once, without an error and with the collections unchanged.
  The engine's result with such a root anywhere in the list of scan roots is the result
  without it, so every other source populates the table as before, and that result is a
  table, never an error.
\<close>

theorem unresolvable_scan_root_contributes_nothing:
  assumes "ResolvePath env (ScanDir.Path bad) = None"
  shows "processScanDir env cfg bad flagDepth prefix addEntry st = Inr st \<and>
         buildDirectoryEntries env (cfg\<lparr>ScanDirs := before @ bad # after\<rparr>) flagDepth =
           buildDirectoryEntries env (cfg\<lparr>ScanDirs := before @ after\<rparr>) flagDepth \<and>
         (\<exists>entries. buildDirectoryEntries env (cfg\<lparr>ScanDirs := before @ bad # after\<rparr>) flagDepth =
            Inr entries)"
proof (intro conjI)
  show "processScanDir env cfg bad flagDepth prefix addEntry st = Inr st"
    using assms by (rule processScanDir_unresolved)
  show "buildDirectoryEntries env (cfg\<lparr>ScanDirs := before @ bad # after\<rparr>) flagDepth =
        buildDirectoryEntries env (cfg\<lparr>ScanDirs := before @ after\<rparr>) flagDepth"
    using collectPaths_skip_unresolved[OF assms, where cfg = cfg and before = before
        and after = after and flagDepth = flagDepth]
    by (simp add: buildDirectoryEntries_def split: sum.split)
  show "\<exists>entries. buildDirectoryEntries env (cfg\<lparr>ScanDirs := before @ bad # after\<rparr>) flagDepth =
          Inr entries"
    by (rule buildDirectoryEntries_no_error)
qed

theorem unresolvable_scan_root_contributes_nothing_witness:
  "ResolvePath demoEnv (ScanDir.Path \<lparr>ScanDir.Path = ''/missing'', Depth = None, Alias = ''gone''\<rparr>) = None \<and>
   buildDirectoryEntries demoEnv
     (demoCfg\<lparr>ScanDirs := [] @ \<lparr>ScanDir.Path = ''/missing'', Depth = None, Alias = ''gone''\<rparr> # ScanDirs demoCfg\<rparr>) 0 =
     Inr [''work/api'' \<mapsto> ''/w/api'', ''etc'' \<mapsto> ''/etc'', ''TMUX/notes'' \<mapsto> ''notes'']"
proof -
  have unresolved: "ResolvePath demoEnv
      (ScanDir.Path \<lparr>ScanDir.Path = ''/missing'', Depth = None, Alias = ''gone''\<rparr>) = None"
    by (simp add: demoEnv_def)
  have same: "demoCfg\<lparr>ScanDirs := [] @ ScanDirs demoCfg\<rparr> = demoCfg"
    by simp
  show ?thesis
    using unresolvable_scan_root_contributes_nothing[OF unresolved,
        where cfg = demoCfg and before = "[]" and after = "ScanDirs demoCfg" and flagDepth = 0]
      unresolved demo_entries
    by (simp only: same)
qed

text \<open>
  Claim C9. A path whose resolved form has the current session's name as its base name is
  skipped by \<^verbatim>\<open>addPath\<close>: both collections are returned unchanged, whatever the prefix
  and so whatever display name the path would have got. Hence, after all sources are
  collected, no candidate has that base name and the base-name index has no slot for it.
\<close>

theorem current_base_name_not_admitted:
  "(ResolvePath env path = Some resolved \<and> Base resolved = GetCurrentTmuxSession env \<longrightarrow>
      addPath env ignoreSet st path prefix = Inr st) \<and>
   (collectPaths env cfg flagDepth = Inr st' \<longrightarrow>
      (\<forall>info \<in> set (allPaths st'). Base (PathInfo.Path info) \<noteq> GetCurrentTmuxSession env) \<and>
      pathsByBaseName st' (GetCurrentTmuxSession env) = None)"
proof (intro conjI impI)
  assume "ResolvePath env path = Some resolved \<and> Base resolved = GetCurrentTmuxSession env"
  then show "addPath env ignoreSet st path prefix = Inr st"
    by (simp add: addPath_def)
next
  let ?cur = "GetCurrentTmuxSession env"
  let ?P = "\<lambda>s. (\<forall>info \<in> set (allPaths s). Base (PathInfo.Path info) \<noteq> ?cur) \<and>
                 pathsByBaseName s ?cur = None"
  assume run: "collectPaths env cfg flagDepth = Inr st'"
  have "?P st'"
  proof (rule collectPaths_invariant[where P = ?P, OF _ _ run])
    show "?P \<lparr>allPaths = [], pathsByBaseName = Map.empty\<rparr>" by simp
  next
    fix s p pre s'
    assume inv: "?P s"
      and add: "addPath env (buildIgnoreSet env (IgnoreDirs cfg) {}) s p pre = Inr s'"
    from addPath_cases[of env "buildIgnoreSet env (IgnoreDirs cfg) {}" s p pre]
    show "?P s'"
    proof (elim disjE exE conjE)
      assume "addPath env (buildIgnoreSet env (IgnoreDirs cfg) {}) s p pre = Inr s"
      with add inv show ?thesis by simp
    next
      fix resolved
      assume notcur: "Base resolved \<noteq> ?cur"
        and eq: "addPath env (buildIgnoreSet env (IgnoreDirs cfg) {}) s p pre =
          Inr \<lparr>allPaths = allPaths s @ [\<lparr>PathInfo.Path = resolved, Prefix = pre\<rparr>],
               pathsByBaseName = (pathsByBaseName s)(Base resolved \<mapsto>
                 slicesAt (pathsByBaseName s) (Base resolved) @
                   [\<lparr>PathInfo.Path = resolved, Prefix = pre\<rparr>])\<rparr>"
      from add eq have s': "s' = \<lparr>allPaths = allPaths s @ [\<lparr>PathInfo.Path = resolved, Prefix = pre\<rparr>],
               pathsByBaseName = (pathsByBaseName s)(Base resolved \<mapsto>
                 slicesAt (pathsByBaseName s) (Base resolved) @
                   [\<lparr>PathInfo.Path = resolved, Prefix = pre\<rparr>])\<rparr>" by simp
      show ?thesis
        unfolding s' using inv notcur by simp
    qed
  qed
  then show "\<forall>info \<in> set (allPaths st'). Base (PathInfo.Path info) \<noteq> ?cur"
    and "pathsByBaseName st' ?cur = None" by simp_all
qed

theorem current_base_name_not_admitted_witness:
  "ResolvePath demoEnv ''/w/main'' = Some ''/w/main'' \<and>
   Base ''/w/main'' = GetCurrentTmuxSession demoEnv \<and>
   createDisplayName \<lparr>PathInfo.Path = ''/w/main'', Prefix = ''work''\<rparr> Map.empty = ''work/main'' \<and>
   addPath demoEnv {} \<lparr>allPaths = [], pathsByBaseName = Map.empty\<rparr> ''/w/main'' ''work'' =
     Inr \<lparr>allPaths = [], pathsByBaseName = Map.empty\<rparr> \<and>
   collectPaths demoEnv demoCfg 0 = Inr (projr (collectPaths demoEnv demoCfg 0)) \<and>
   pathsByBaseName (projr (collectPaths demoEnv demoCfg 0)) ''main'' = None"
  using current_base_name_not_admitted[of demoEnv "''/w/main''" "''/w/main''" "{}"
      "\<lparr>allPaths = [], pathsByBaseName = Map.empty\<rparr>" "''work''" demoCfg 0
      "projr (collectPaths demoEnv demoCfg 0)"]
  by (simp add: demo_collect)
     (simp add: demoEnv_def Base_def IsPathSeparator_def createDisplayName_def slicesAt_def Let_def)

text \<open>
  Claim C10, amended. Let \<open>name\<close> be a non-empty name that is no key of the table. Picked
  interactively, with no positional argument, it makes the command return the error that
  the name must match an entry. Given as the positional argument, and other than
  \<^verbatim>\<open>init\<close> and \<^verbatim>\<open>edit\<close>, it passes: the membership check is not applied, and the
  command ends with what \<^verbatim>\<open>tmux.CreateAndSwitchSession\<close> returns for the session of
  that name (without the session prefix) and the empty path. As stated, for every
  non-matching name, the claim fails: see the counterexample below.
\<close>

theorem membership_check_only_without_argument:
  assumes "buildDirectoryEntries env cfg flagDepth = Inr entries"
    and "entries name = None" and "name \<noteq> []"
  shows "(SelectWithFzf ext (pickerNames cfg (rangeKeys ext entries)) = Inr name \<longrightarrow>
            rootCmd env cfg ext flagDepth [] = Returned (Some (NoMatchingEntry name))) \<and>
         (name \<noteq> ''init'' \<and> name \<noteq> ''edit'' \<longrightarrow>
            rootCmd env cfg ext flagDepth [name] =
              (case CreateAndSwitchSession ext cfg
                      \<lparr>Name = fst (CutPrefix name (TmuxSessionPrefix cfg)), Session.Path = [],
                       Layout = SessionLayout cfg\<rparr> of
                 Some err \<Rightarrow> Returned (Some (SwitchFailed err))
               | None \<Rightarrow> Returned None))"
  using assms
  by (simp add: rootCmd_def PreRunE_def RunE_def switchToChoice_def Let_def)

theorem membership_check_only_without_argument_witness:
  "buildDirectoryEntries demoEnv demoCfg 0 =
     Inr [''work/api'' \<mapsto> ''/w/api'', ''etc'' \<mapsto> ''/etc'', ''TMUX/notes'' \<mapsto> ''notes''] \<and>
   [''work/api'' \<mapsto> ''/w/api'', ''etc'' \<mapsto> ''/etc'', ''TMUX/notes'' \<mapsto> ''notes''] ''scratch'' = None \<and>
   SelectWithFzf demoExt
     (pickerNames demoCfg
        (rangeKeys demoExt
           [''work/api'' \<mapsto> ''/w/api'', ''etc'' \<mapsto> ''/etc'', ''TMUX/notes'' \<mapsto> ''notes''])) =
     Inr ''scratch'' \<and>
   rootCmd demoEnv demoCfg demoExt 0 [] = Returned (Some (NoMatchingEntry ''scratch'')) \<and>
   rootCmd demoEnv demoCfg demoExt 0 [''scratch''] = Returned None \<and>
   CreateAndSwitchSession demoExt demoCfg
     \<lparr>Name = ''scratch'', Session.Path = [], Layout = ()\<rparr> = None"
  using membership_check_only_without_argument[OF demo_entries, of "''scratch''" demoExt]
  by (simp add: demo_entries) (simp add: demoExt_def)

text \<open>
  \<^verbatim>\<open>PreRunE\<close> rejects the positional arguments \<^verbatim>\<open>init\<close> and \<^verbatim>\<open>edit\<close>: the command
  returns an error and \<^verbatim>\<open>RunE\<close> is not run.
\<close>

theorem positional_init_counterexample:
  "buildDirectoryEntries demoEnv demoCfg 0 =
     Inr [''work/api'' \<mapsto> ''/w/api'', ''etc'' \<mapsto> ''/etc'', ''TMUX/notes'' \<mapsto> ''notes''] \<and>
   [''work/api'' \<mapsto> ''/w/api'', ''etc'' \<mapsto> ''/etc'', ''TMUX/notes'' \<mapsto> ''notes''] ''init'' = None \<and>
   rootCmd demoEnv demoCfg demoExt 0 [''init''] =
     Returned (Some (UnknownCommand ''init'' ''tms config init''))"
  by (simp add: demo_entries rootCmd_def PreRunE_def)

end
